theory Spec2Isabelle
  imports Complex_Main "HOL-Library.Multiset" "HOL-Library.Sublist"
begin

section \<open>Python floats\<close>

text \<open>
  Sizes, capacities and occupancies are Python floats: IEEE 754 binary64 numbers. A float
  is modelled by the real number it stands for. Comparison of floats is comparison of
  these numbers; \<open>+\<close> and \<open>-\<close> give the exact result rounded to the nearest number with a
  53-bit significand, a tie going to the even significand. The model covers finite floats
  whose results stay in the normal range of binary64 (magnitude from \<open>2\<^sup>-\<^sup>1\<^sup>0\<^sup>2\<^sup>2\<close> up to
  \<open>2\<^sup>1\<^sup>0\<^sup>2\<^sup>4\<close>): it has no infinities, no NaN, no signed zero and no subnormal numbers.
\<close>

fun bit_length :: "nat \<Rightarrow> nat" where
  \<comment> \<open>The number of binary digits of \<open>n\<close>.\<close>
  "bit_length n = (if n = 0 then 0 else Suc (bit_length (n div 2)))"

definition pow2 :: "int \<Rightarrow> real" where
  "pow2 k = (if 0 \<le> k then 2 ^ nat k else 1 / 2 ^ nat (- k))"

definition float_exponent :: "real \<Rightarrow> int" where
  \<comment> \<open>For \<open>x \<noteq> 0\<close>, the \<open>e\<close> with \<open>2\<^sup>e \<le> \<bar>x\<bar> < 2\<^sup>e\<^sup>+\<^sup>1\<close>.\<close>
  "float_exponent x =
     (if 1 \<le> \<bar>x\<bar> then int (bit_length (nat \<lfloor>\<bar>x\<bar>\<rfloor>)) - 1
      else - int (bit_length (nat (\<lceil>1 / \<bar>x\<bar>\<rceil> - 1))))"

definition round_half_even :: "real \<Rightarrow> int" where
  "round_half_even y =
     (if y - of_int \<lfloor>y\<rfloor> < 1 / 2 then \<lfloor>y\<rfloor>
      else if 1 / 2 < y - of_int \<lfloor>y\<rfloor> then \<lfloor>y\<rfloor> + 1
      else if even \<lfloor>y\<rfloor> then \<lfloor>y\<rfloor> else \<lfloor>y\<rfloor> + 1)"

definition float_round :: "real \<Rightarrow> real" where
  \<comment> \<open>The nearest multiple of \<open>2\<^sup>e\<^sup>-\<^sup>5\<^sup>2\<close>, where \<open>e\<close> is the exponent of \<open>x\<close>.\<close>
  "float_round x =
     (if x = 0 then 0
      else of_int (round_half_even (x / pow2 (float_exponent x - 52)))
             * pow2 (float_exponent x - 52))"

definition py_float :: "real \<Rightarrow> real" where
  \<comment> \<open>The float a decimal literal denotes, such as \<open>0.1\<close>: the one nearest to it.\<close>
  "py_float r = float_round r"

definition float_add :: "real \<Rightarrow> real \<Rightarrow> real" where
  "float_add x y = float_round (x + y)"

definition float_sub :: "real \<Rightarrow> real \<Rightarrow> real" where
  "float_sub x y = float_round (x - y)"

section \<open>Data model (logistech/models.py)\<close>

record package =
  tracking_id :: string
  pkg_size :: real
  destination :: string
  is_fragile :: bool
  current_bin_id :: "int option"
  current_truck_id :: "int option"

record storage_bin =
  capacity :: real
  occupancy :: real
  bin_id :: int
  location_code :: string

definition get_remaining_capacity :: "storage_bin \<Rightarrow> real" where
  "get_remaining_capacity b = float_sub (capacity b) (occupancy b)"

text \<open>
  \<open>occupy_space\<close> mutates the bin and returns a flag; the model returns the flag together
  with the bin after the call.
\<close>

definition occupy_space :: "storage_bin \<Rightarrow> real \<Rightarrow> bool \<times> storage_bin" where
  "occupy_space b amount =
     (if get_remaining_capacity b \<ge> amount
      then (True, b\<lparr>occupancy := float_add (occupancy b) amount\<rparr>)
      else (False, b))"

definition free_space :: "storage_bin \<Rightarrow> real \<Rightarrow> storage_bin" where
  "free_space b amount = b\<lparr>occupancy := max 0 (float_sub (occupancy b) amount)\<rparr>"

section \<open>Load optimizer (logistech/algorithms.py)\<close>

text \<open>
  The two \<open>nonlocal\<close> variables of \<open>backtrack\<close> form the search state. The field
  \<open>call_log\<close> is instrumentation only: it records, in order, the arguments
  \<open>(index, current_size)\<close> of every call of \<open>backtrack\<close>; nothing in the model reads it.
\<close>

record search_state =
  best_load :: "package list"
  best_size :: real
  call_log :: "(nat \<times> real) list"

definition log_call :: "nat \<Rightarrow> real \<Rightarrow> search_state \<Rightarrow> search_state" where
  "log_call index current_size st = st\<lparr>call_log := call_log st @ [(index, current_size)]\<rparr>"

definition record_best :: "package list \<Rightarrow> real \<Rightarrow> search_state \<Rightarrow> search_state" where
  "record_best current_load current_size st =
     st\<lparr>best_load := current_load, best_size := current_size\<rparr>"

text \<open>
  \<open>backtrack\<close> and the \<open>for i in range(index, len(sorted_packages))\<close> loop inside it.
  \<open>current_load\<close> is one list that the source appends to before the recursive call and
  pops after it; the model passes the extended list to the call and keeps the old one for
  the rest of the loop. \<open>best_load = current_load[:]\<close> stores a copy, that is, the value.
\<close>

function backtrack ::
    "package list \<Rightarrow> real \<Rightarrow> nat \<Rightarrow> package list \<Rightarrow> real \<Rightarrow> search_state \<Rightarrow> search_state"
  and for_range ::
    "package list \<Rightarrow> real \<Rightarrow> nat \<Rightarrow> package list \<Rightarrow> real \<Rightarrow> search_state \<Rightarrow> search_state"
where
  "backtrack sorted_packages target_capacity index current_load current_size st =
     (if current_size = target_capacity
      then record_best current_load current_size (log_call index current_size st)
      else for_range sorted_packages target_capacity index current_load current_size
             (if current_size > best_size st
              then record_best current_load current_size (log_call index current_size st)
              else log_call index current_size st))"
| "for_range sorted_packages target_capacity i current_load current_size st =
     (if i < length sorted_packages
      then for_range sorted_packages target_capacity (i + 1) current_load current_size
             (if float_add current_size (pkg_size (sorted_packages ! i)) \<le> target_capacity
              then backtrack sorted_packages target_capacity (i + 1)
                     (current_load @ [sorted_packages ! i])
                     (float_add current_size (pkg_size (sorted_packages ! i))) st
              else st)
      else st)"
  by pat_completeness auto
termination
  by (relation "measure (\<lambda>x. case x of
        Inl (sp, T, i, cl, cs, st) \<Rightarrow> 2 * (length sp - i) + 1
      | Inr (sp, T, i, cl, cs, st) \<Rightarrow> 2 * (length sp - i))") auto

text \<open>
  \<open>sorted(packages, key=lambda p: p.size, reverse=True)\<close>: a stable sort, descending by
  size, equal sizes keeping their input order.
\<close>

definition sorted_desc :: "package list \<Rightarrow> package list" where
  "sorted_desc packages = sort_key (\<lambda>p. - pkg_size p) packages"

definition initial_search :: search_state where
  "initial_search = \<lparr>best_load = [], best_size = 0, call_log = []\<rparr>"

definition run_search :: "package list \<Rightarrow> real \<Rightarrow> search_state" where
  "run_search packages target_capacity =
     backtrack (sorted_desc packages) target_capacity 0 [] 0 initial_search"

definition find_optimal_shipment :: "package list \<Rightarrow> real \<Rightarrow> package list" where
  "find_optimal_shipment packages target_capacity =
     best_load (run_search packages target_capacity)"

definition total_size :: "package list \<Rightarrow> real" where
  \<comment> \<open>The \<open>current_size\<close> that \<open>backtrack\<close> reaches for a selection: its sizes added one by
      one, in order, starting from \<open>0.0\<close>.\<close>
  "total_size ps = foldl (\<lambda>acc p. float_add acc (pkg_size p)) 0 ps"

definition mk_package :: "string \<Rightarrow> real \<Rightarrow> string \<Rightarrow> package" where
  \<comment> \<open>\<open>Package(tracking_id, size, destination)\<close>: the constructor with its defaults.\<close>
  "mk_package tid sz dest =
     \<lparr>tracking_id = tid, pkg_size = sz, destination = dest, is_fragile = False,
      current_bin_id = None, current_truck_id = None\<rparr>"

definition search_inv :: "real \<Rightarrow> search_state \<Rightarrow> bool" where
  \<comment> \<open>The recorded best size is the total of the recorded best load and is within the target.\<close>
  "search_inv T st \<longleftrightarrow> total_size (best_load st) = best_size st \<and> best_size st \<le> T"

subsection \<open>The optimizer on a store of list objects\<close>

text \<open>
  Python lists are objects: \<open>sorted(...)\<close>, \<open>[]\<close> and \<open>current_load[:]\<close> each create a
  new list, while \<open>append\<close> and \<open>pop\<close> change a list in place. The store holds every list
  object; a reference is a position in the store, and a new object takes the next free
  position.
\<close>

datatype py_error = IndexError

type_synonym heap = "package list list"

definition new_list :: "package list \<Rightarrow> heap \<Rightarrow> nat \<times> heap" where
  "new_list xs h = (length h, h @ [xs])"

definition list_append :: "nat \<Rightarrow> package \<Rightarrow> heap \<Rightarrow> heap" where
  "list_append r x h = h[r := h ! r @ [x]]"

definition list_pop :: "nat \<Rightarrow> heap \<Rightarrow> py_error + heap" where
  \<comment> \<open>\<open>pop()\<close> on an empty list raises IndexError.\<close>
  "list_pop r h = (if h ! r = [] then Inl IndexError else Inr (h[r := butlast (h ! r)]))"

record store_state =
  heap :: heap
  best_load_ref :: nat
  best_size_s :: real

definition record_best_store :: "nat \<Rightarrow> real \<Rightarrow> store_state \<Rightarrow> store_state" where
  \<comment> \<open>\<open>best_load = current_load[:]; best_size = current_size\<close>\<close>
  "record_best_store current_load current_size st =
     (case new_list (heap st ! current_load) (heap st) of
        (r, h) \<Rightarrow> st\<lparr>heap := h, best_load_ref := r, best_size_s := current_size\<rparr>)"

text \<open>
  \<open>sorted_packages\<close> is bound once, to the list \<open>sorted\<close> returns, and the function holds
  the only reference to it; the search takes its contents as a value. \<open>current_load\<close> is a
  reference: every call works on the same list object.
\<close>

function backtrack_store ::
    "package list \<Rightarrow> real \<Rightarrow> nat \<Rightarrow> nat \<Rightarrow> real \<Rightarrow> store_state \<Rightarrow> py_error + store_state"
  and for_range_store ::
    "package list \<Rightarrow> real \<Rightarrow> nat \<Rightarrow> nat \<Rightarrow> real \<Rightarrow> store_state \<Rightarrow> py_error + store_state"
where
  "backtrack_store sorted_packages target_capacity index current_load current_size st =
     (if current_size = target_capacity
      then Inr (record_best_store current_load current_size st)
      else for_range_store sorted_packages target_capacity index current_load current_size
             (if current_size > best_size_s st
              then record_best_store current_load current_size st
              else st))"
| "for_range_store sorted_packages target_capacity i current_load current_size st =
     (if i < length sorted_packages
      then
        (if float_add current_size (pkg_size (sorted_packages ! i)) \<le> target_capacity
         then
           (case backtrack_store sorted_packages target_capacity (i + 1) current_load
                   (float_add current_size (pkg_size (sorted_packages ! i)))
                   (st\<lparr>heap := list_append current_load (sorted_packages ! i) (heap st)\<rparr>) of
              Inl e \<Rightarrow> Inl e
            | Inr st1 \<Rightarrow>
                (case list_pop current_load (heap st1) of
                   Inl e \<Rightarrow> Inl e
                 | Inr h \<Rightarrow>
                     for_range_store sorted_packages target_capacity (i + 1) current_load
                       current_size (st1\<lparr>heap := h\<rparr>)))
         else for_range_store sorted_packages target_capacity (i + 1) current_load
                current_size st)
      else Inr st)"
  by pat_completeness auto
termination
  by (relation "measure (\<lambda>x. case x of
        Inl (sp, T, i, cl, cs, st) \<Rightarrow> 2 * (length sp - i) + 1
      | Inr (sp, T, i, cl, cs, st) \<Rightarrow> 2 * (length sp - i))") auto

definition find_optimal_shipment_store ::
    "nat \<Rightarrow> real \<Rightarrow> heap \<Rightarrow> py_error + (nat \<times> heap)" where
  "find_optimal_shipment_store packages target_capacity h =
     (case new_list (sorted_desc (h ! packages)) h of
        (sorted_packages, h1) \<Rightarrow>
          (case new_list [] h1 of
             (best, h2) \<Rightarrow>
               (case new_list [] h2 of
                  (current_load, h3) \<Rightarrow>
                    (case backtrack_store (h3 ! sorted_packages) target_capacity 0
                            current_load 0
                            \<lparr>heap = h3, best_load_ref = best, best_size_s = 0\<rparr> of
                       Inl e \<Rightarrow> Inl e
                     | Inr st \<Rightarrow> Inr (best_load_ref st, heap st)))))"

definition store_rel :: "store_state \<Rightarrow> search_state \<Rightarrow> bool" where
  \<comment> \<open>The list \<open>best_load\<close> refers to holds the value the value-passing search has recorded.\<close>
  "store_rel st ps \<longleftrightarrow>
     heap st ! best_load_ref st = best_load ps \<and> best_size_s st = best_size ps"

definition store_ok :: "store_state \<Rightarrow> nat \<Rightarrow> bool" where
  \<comment> \<open>\<open>current_load\<close> and \<open>best_load\<close> refer to two different lists of the store.\<close>
  "store_ok st cl \<longleftrightarrow>
     cl < length (heap st) \<and> best_load_ref st < length (heap st) \<and> best_load_ref st \<noteq> cl"

definition store_frame :: "store_state \<Rightarrow> nat \<Rightarrow> store_state \<Rightarrow> bool" where
  \<comment> \<open>What a call leaves of the store it started from: every list that existed keeps its
      contents, and \<open>best_load\<close> is the list it was or one created since.\<close>
  "store_frame st cl st' \<longleftrightarrow>
     length (heap st) \<le> length (heap st') \<and>
     (\<forall>a<length (heap st). heap st' ! a = heap st ! a) \<and>
     best_load_ref st' < length (heap st') \<and> best_load_ref st' \<noteq> cl \<and>
     (best_load_ref st' = best_load_ref st \<or> length (heap st) \<le> best_load_ref st')"

section \<open>Controller (logistech/controller.py)\<close>

text \<open>
  The three attributes of \<open>LogiMaster\<close>. A method that changes the controller returns the
  controller after the call. The database is outside the model: what a query returns and
  whether a commit succeeds are parameters of the operations.
\<close>

record logimaster =
  bin_inventory :: "storage_bin list"
  conveyor_queue :: "package list"
  loading_stack :: "string list"

record sql_storage_bin =
  row_bin_id :: int
  row_location_code :: string
  max_capacity :: real
  current_occupancy :: real

definition load_and_sort_bins :: "sql_storage_bin list option \<Rightarrow> storage_bin list" where
  \<comment> \<open>\<open>None\<close>: the query raises and the method returns \<open>[]\<close>. \<open>oop_bins.sort()\<close> is a stable
      sort under \<open>__lt__\<close>, which compares capacities.\<close>
  "load_and_sort_bins query_result =
     (case query_result of
        None \<Rightarrow> []
      | Some sql_bins \<Rightarrow>
          sort_key capacity
            (map (\<lambda>b. \<lparr>capacity = max_capacity b, occupancy = current_occupancy b,
                       bin_id = row_bin_id b, location_code = row_location_code b\<rparr>) sql_bins))"

definition init_logimaster :: "sql_storage_bin list option \<Rightarrow> logimaster" where
  "init_logimaster query_result =
     \<lparr>bin_inventory = load_and_sort_bins query_result, conveyor_queue = [], loading_stack = []\<rparr>"

definition resolve_index :: "nat \<Rightarrow> int \<Rightarrow> nat option" where
  \<comment> \<open>Python list indexing: a negative index counts from the end; \<open>None\<close> is IndexError.\<close>
  "resolve_index n i =
     (let j = (if i < 0 then int n + i else i)
      in if 0 \<le> j \<and> j < int n then Some (nat j) else None)"

text \<open>
  The \<open>while low <= high\<close> loop of \<open>find_best_fit_bin\<close>. \<open>best_fit_bin\<close> refers to a bin of
  the inventory; the model holds the bin's position in \<open>bins\<close>.
\<close>

function binary_search ::
    "storage_bin list \<Rightarrow> real \<Rightarrow> int \<Rightarrow> int \<Rightarrow> nat option \<Rightarrow> py_error + nat option" where
  "binary_search bins package_size low high best_fit_bin =
     (if low \<le> high
      then
        (case resolve_index (length bins) ((low + high) div 2) of
           None \<Rightarrow> Inl IndexError
         | Some k \<Rightarrow>
             if capacity (bins ! k) \<ge> package_size
             then binary_search bins package_size low ((low + high) div 2 - 1) (Some k)
             else binary_search bins package_size ((low + high) div 2 + 1) high best_fit_bin)
      else Inr best_fit_bin)"
  by pat_completeness auto
termination
  by (relation "measure (\<lambda>(bins, sz, low, high, best). nat (high - low + 1))") auto

definition find_best_fit_bin ::
    "logimaster \<Rightarrow> real \<Rightarrow> (py_error + nat option) \<times> logimaster" where
  "find_best_fit_bin self package_size =
     (let bins = bin_inventory self in
      case binary_search bins package_size 0 (int (length bins) - 1) None of
        Inl e \<Rightarrow> (Inl e, self)
      | Inr None \<Rightarrow> (Inr None, self)
      | Inr (Some k) \<Rightarrow>
          if get_remaining_capacity (bins ! k) \<ge> package_size
          then (Inr (Some k), self)
          else (Inr None, self))"

definition ingest_package :: "package \<Rightarrow> logimaster \<Rightarrow> logimaster" where
  "ingest_package package self = self\<lparr>conveyor_queue := conveyor_queue self @ [package]\<rparr>"

text \<open>
  What a Python call hands back to its caller. \<open>process_next_package\<close> has a bare
  \<open>return\<close> and otherwise falls off its end.
\<close>

datatype py_value = PyNone | PyStr string

text \<open>
  \<open>update_db_assignment package bin\<close> is \<open>True\<close> when \<open>_update_db_assignment\<close> commits and
  \<open>False\<close> when it raises. \<open>_log_shipment\<close> catches its own exceptions.
\<close>

definition process_next_package ::
    "(package \<Rightarrow> storage_bin \<Rightarrow> bool) \<Rightarrow> logimaster \<Rightarrow> (py_error + py_value) \<times> logimaster" where
  "process_next_package update_db_assignment self =
     (case conveyor_queue self of
        [] \<Rightarrow> (Inr PyNone, self)
      | package # rest \<Rightarrow>
          (case find_best_fit_bin (self\<lparr>conveyor_queue := rest\<rparr>) (pkg_size package) of
             (Inl e, s) \<Rightarrow> (Inl e, s)
           | (Inr None, s) \<Rightarrow> (Inr PyNone, s)
           | (Inr (Some k), s) \<Rightarrow>
               (let occupied = s\<lparr>bin_inventory := (bin_inventory s)
                        [k := snd (occupy_space (bin_inventory s ! k) (pkg_size package))]\<rparr>
                in if update_db_assignment package (bin_inventory occupied ! k)
                   then (Inr PyNone, occupied)
                   else (Inr PyNone,
                         occupied\<lparr>bin_inventory := (bin_inventory occupied)
                             [k := free_space (bin_inventory occupied ! k) (pkg_size package)],
                           conveyor_queue := package # conveyor_queue occupied\<rparr>))))"

text \<open>
  The database as \<open>prepare_shipment\<close> sees it: the truck row (\<open>None\<close> when \<open>.one()\<close>
  raises), the candidate packages built from the query, whether \<open>.one()\<close> finds the row of
  a tracking id, and whether \<open>session.commit()\<close> succeeds.
\<close>

record shipment_db =
  truck_row :: "real option"
  candidate_packages :: "package list"
  package_row_found :: "string \<Rightarrow> bool"
  commit_succeeds :: bool

datatype session_end = Committed | RolledBack | Closed

fun load_packages :: "(string \<Rightarrow> bool) \<Rightarrow> package list \<Rightarrow> string list \<Rightarrow> bool \<times> string list" where
  \<comment> \<open>\<open>for package in optimal_load\<close>; \<open>False\<close> when a row lookup raises, which ends the loop.\<close>
  "load_packages found [] stack = (True, stack)"
| "load_packages found (package # rest) stack =
     (if found (tracking_id package)
      then load_packages found rest (stack @ [tracking_id package])
      else (False, stack @ [tracking_id package]))"

definition prepare_shipment :: "shipment_db \<Rightarrow> logimaster \<Rightarrow> session_end \<times> logimaster" where
  "prepare_shipment db self =
     (case truck_row db of
        None \<Rightarrow> (RolledBack, self)
      | Some truck_capacity \<Rightarrow>
          if candidate_packages db = [] then (Closed, self)
          else
            (let optimal_load = find_optimal_shipment (candidate_packages db) truck_capacity
             in if optimal_load = [] then (Closed, self)
                else
                  (case load_packages (package_row_found db) optimal_load (loading_stack self) of
                     (loaded, stack) \<Rightarrow>
                       (if loaded \<and> commit_succeeds db then Committed else RolledBack,
                        self\<lparr>loading_stack := stack\<rparr>))))"

text \<open>
  A call of \<open>occupy_space\<close> or \<open>free_space\<close> on a bin of the catalog, the bin given by its
  position. A position outside the catalog names no bin, and the call changes nothing.
\<close>

datatype bin_call = Occupy nat real | Free nat real

fun apply_call :: "bin_call \<Rightarrow> storage_bin list \<Rightarrow> storage_bin list" where
  "apply_call (Occupy k amount) bins = bins[k := snd (occupy_space (bins ! k) amount)]"
| "apply_call (Free k amount) bins = bins[k := free_space (bins ! k) amount]"

definition apply_calls :: "bin_call list \<Rightarrow> storage_bin list \<Rightarrow> storage_bin list" where
  "apply_calls calls bins = fold apply_call calls bins"

definition bin_key :: "storage_bin \<Rightarrow> real \<times> int" where
  \<comment> \<open>What the order of the catalog is about: the capacity, and which bin it is.\<close>
  "bin_key b = (capacity b, bin_id b)"

definition bin_ok :: "storage_bin \<Rightarrow> bool" where
  "bin_ok b \<longleftrightarrow> 0 \<le> occupancy b \<and> occupancy b \<le> capacity b"

text \<open>The six bins that \<open>seed_data\<close> (db/setup.py) inserts, in insertion order.\<close>

definition seed_bins :: "sql_storage_bin list" where
  "seed_bins =
     [\<lparr>row_bin_id = 101, row_location_code = ''A01S01'', max_capacity = 5, current_occupancy = 0\<rparr>,
      \<lparr>row_bin_id = 102, row_location_code = ''A01S02'', max_capacity = 10, current_occupancy = 0\<rparr>,
      \<lparr>row_bin_id = 201, row_location_code = ''A05S10'', max_capacity = 15, current_occupancy = 0\<rparr>,
      \<lparr>row_bin_id = 202, row_location_code = ''A05S11'', max_capacity = 20, current_occupancy = 0\<rparr>,
      \<lparr>row_bin_id = 301, row_location_code = ''B10S05'', max_capacity = 50, current_occupancy = 0\<rparr>,
      \<lparr>row_bin_id = 302, row_location_code = ''B10S06'', max_capacity = 100, current_occupancy = 0\<rparr>]"

section \<open>The float model\<close>

text \<open>
  \<open>float_round x\<close> is a multiple of \<open>2\<^sup>e\<^sup>-\<^sup>5\<^sup>2\<close>, where \<open>2\<^sup>e \<le> \<bar>x\<bar> < 2\<^sup>e\<^sup>+\<^sup>1\<close>, and it is within half
  of that unit of \<open>x\<close>: the nearest number with a 53-bit significand.
\<close>

declare bit_length.simps [simp del]

lemma bit_length_bounds:
  "0 < n \<Longrightarrow> 2 ^ (bit_length n - 1) \<le> n \<and> n < 2 ^ bit_length n"
proof (induction n rule: bit_length.induct)
  case (1 n)
  show ?case
  proof (cases "n div 2 = 0")
    case True
    with "1.prems" have n: "n = 1" by (simp add: div_eq_0_iff) 
    have "bit_length (Suc 0) = 1"
      by (simp add: bit_length.simps [of "Suc 0"] bit_length.simps [of 0])
    with n show ?thesis by simp
  next
    case False
    then have pos: "0 < n div 2" by simp
    from "1.prems" have n0: "n \<noteq> 0" by simp
    from "1.IH" [OF n0 pos]
    have lo: "2 ^ (bit_length (n div 2) - 1) \<le> n div 2" and hi: "n div 2 < 2 ^ bit_length (n div 2)"
      by simp_all
    have bl: "bit_length n = Suc (bit_length (n div 2))"
      using n0 by (subst bit_length.simps) simp
    have blpos: "0 < bit_length (n div 2)"
      using pos by (subst bit_length.simps) simp
    then obtain k where k: "bit_length (n div 2) = Suc k" by (cases "bit_length (n div 2)") auto
    from lo k have "2 * 2 ^ k \<le> 2 * (n div 2)" by simp
    also have "\<dots> \<le> n" by simp
    finally have a: "2 ^ (bit_length n - 1) \<le> n" by (simp add: bl k)
    from hi have "Suc (n div 2) \<le> 2 ^ bit_length (n div 2)" by simp
    then have "2 * Suc (n div 2) \<le> 2 * 2 ^ bit_length (n div 2)" by simp
    moreover have "n < 2 * Suc (n div 2)" by presburger
    ultimately have b: "n < 2 ^ bit_length n" by (simp add: bl)
    from a b show ?thesis ..
  qed
qed

lemma round_half_even_near: "\<bar>of_int (round_half_even y) - y\<bar> \<le> 1 / 2"
  unfolding round_half_even_def by (auto simp: abs_le_iff)


lemma pow2_pos: "0 < pow2 k"
  by (simp add: pow2_def)

lemma float_exponent_bounds:
  assumes "x \<noteq> 0"
  shows "pow2 (float_exponent x) \<le> \<bar>x\<bar> \<and> \<bar>x\<bar> < pow2 (float_exponent x + 1)"
proof (cases "1 \<le> \<bar>x\<bar>")
  case True
  let ?n = "nat \<lfloor>\<bar>x\<bar>\<rfloor>"
  from True have npos: "0 < ?n" by simp
  from bit_length_bounds [OF npos]
  have lo: "2 ^ (bit_length ?n - 1) \<le> ?n" and hi: "?n < 2 ^ bit_length ?n" by blast+
  have blpos: "0 < bit_length ?n" using npos by (subst bit_length.simps) simp
  have e: "float_exponent x = int (bit_length ?n) - 1"
    using True by (simp add: float_exponent_def)
  have e0: "0 \<le> float_exponent x" using blpos e by simp
  have nat_e: "nat (float_exponent x) = bit_length ?n - 1"
    using e blpos by (cases "bit_length ?n") simp_all
  have p: "pow2 (float_exponent x) = 2 ^ (bit_length ?n - 1)"
    using e0 nat_e by (simp add: pow2_def)
  have "real ?n \<le> \<bar>x\<bar>" using True by simp
  moreover from lo have "(2::real) ^ (bit_length ?n - 1) \<le> real ?n"
    by (metis of_nat_le_iff of_nat_numeral of_nat_power)
  ultimately have a: "pow2 (float_exponent x) \<le> \<bar>x\<bar>"
    unfolding p by linarith
  from hi have "Suc ?n \<le> 2 ^ bit_length ?n" by (rule Suc_leI)
  then have "real (Suc ?n) \<le> 2 ^ bit_length ?n"
    by (metis of_nat_le_iff of_nat_numeral of_nat_power)
  moreover have "\<bar>x\<bar> < real (Suc ?n)" using True by simp linarith
  ultimately have "\<bar>x\<bar> < 2 ^ bit_length ?n" by linarith
  moreover have "pow2 (float_exponent x + 1) = 2 ^ bit_length ?n"
    using e blpos by (simp add: pow2_def)
  ultimately show ?thesis using a by simp
next
  case False
  let ?y = "1 / \<bar>x\<bar>"
  let ?m = "nat (\<lceil>?y\<rceil> - 1)"
  from False assms have x1: "0 < \<bar>x\<bar>" "\<bar>x\<bar> < 1" by simp_all
  then have y1: "1 < ?y" by simp
  then have c2: "2 \<le> \<lceil>?y\<rceil>" by linarith
  then have mpos: "0 < ?m" by simp
  from bit_length_bounds [OF mpos]
  have lo: "2 ^ (bit_length ?m - 1) \<le> ?m" and hi: "?m < 2 ^ bit_length ?m" by blast+
  have blpos: "0 < bit_length ?m" using mpos by (subst bit_length.simps) simp
  then obtain k where k: "bit_length ?m = Suc k" by (cases "bit_length ?m") auto
  have e: "float_exponent x = - int (Suc k)"
    using False k by (simp add: float_exponent_def)
  have "0 \<le> \<lceil>?y\<rceil> - 1" using c2 by linarith
  then have "real ?m = of_int (\<lceil>?y\<rceil> - 1)" by (rule of_nat_nat)
  then have m_eq: "real ?m = of_int \<lceil>?y\<rceil> - 1" by simp
  from hi have "Suc ?m \<le> 2 ^ bit_length ?m" by (rule Suc_leI)
  then have "Suc ?m \<le> 2 ^ Suc k" unfolding k .
  then have "real (Suc ?m) \<le> 2 ^ Suc k"
    by (metis of_nat_le_iff of_nat_numeral of_nat_power)
  with m_eq have "of_int \<lceil>?y\<rceil> \<le> (2::real) ^ Suc k" by simp
  moreover have "?y \<le> of_int \<lceil>?y\<rceil>" by (rule le_of_int_ceiling)
  ultimately have yle: "?y \<le> 2 ^ Suc k" by linarith
  have a: "pow2 (float_exponent x) \<le> \<bar>x\<bar>"
  proof -
    from yle x1 have "1 \<le> 2 ^ Suc k * \<bar>x\<bar>"
      by (simp add: field_simps)
    then have "1 / 2 ^ Suc k \<le> \<bar>x\<bar>"
      by (simp add: field_simps)
    moreover have "pow2 (float_exponent x) = 1 / 2 ^ Suc k"
      unfolding e by (simp add: pow2_def nat_add_distrib)
    ultimately show ?thesis by simp
  qed
  from lo k have "(2::real) ^ k \<le> real ?m"
    by (metis diff_Suc_1 of_nat_le_iff of_nat_numeral of_nat_power)
  with m_eq have "(2::real) ^ k \<le> of_int \<lceil>?y\<rceil> - 1" by simp
  moreover have "of_int \<lceil>?y\<rceil> - 1 < ?y" by linarith
  ultimately have ygt: "2 ^ k < ?y" by linarith
  have b: "\<bar>x\<bar> < pow2 (float_exponent x + 1)"
  proof -
    from ygt x1 have "2 ^ k * \<bar>x\<bar> < 1" by (simp add: field_simps)
    then have "\<bar>x\<bar> < 1 / 2 ^ k" by (simp add: field_simps)
    moreover have "pow2 (float_exponent x + 1) = 1 / 2 ^ k"
      using e by (cases k) (simp_all add: pow2_def nat_add_distrib)
    ultimately show ?thesis by simp
  qed
  from a b show ?thesis ..
qed

lemma float_round_near:
  assumes "x \<noteq> 0"
  shows "\<bar>float_round x - x\<bar> \<le> pow2 (float_exponent x - 52) / 2"
proof -
  let ?u = "pow2 (float_exponent x - 52)"
  have u: "0 < ?u" by (rule pow2_pos)
  have "float_round x - x = (of_int (round_half_even (x / ?u)) - x / ?u) * ?u"
    using assms u by (simp add: float_round_def field_simps)
  then have "\<bar>float_round x - x\<bar> = \<bar>of_int (round_half_even (x / ?u)) - x / ?u\<bar> * ?u"
    using u by (simp add: abs_mult)
  also have "\<dots> \<le> (1 / 2) * ?u"
    using round_half_even_near [of "x / ?u"] u by (intro mult_right_mono) simp_all
  finally show ?thesis by simp
qed

lemmas float_eval =
  float_round_def float_exponent_def round_half_even_def pow2_def py_float_def
  float_add_def float_sub_def bit_length.simps

text \<open>Some sums and differences as Python prints them.\<close>

lemma float_examples:
  "py_float (1 / 10) = 3602879701896397 / 2 ^ 55"
  "float_add (py_float (1 / 10)) (py_float (1 / 5)) = py_float (30000000000000004 / 10 ^ 17)"
  "float_sub (float_add (py_float (1 / 10)) (py_float (1 / 5))) (py_float (1 / 5))
     = py_float (10000000000000003 / 10 ^ 17)"
  "float_add (py_float (166 / 10)) (py_float (26 / 10)) = py_float (19200000000000003 / 10 ^ 15)"
  "float_sub (float_add 1 (py_float (10 ^ 16))) (py_float (10 ^ 16)) = 0"
  "float_sub (py_float (3 / 10)) (py_float (1 / 10)) = py_float (19999999999999998 / 10 ^ 17)"
  by (simp_all add: float_eval)

section \<open>The load optimizer\<close>

lemma total_size_snoc: "total_size (xs @ [x]) = float_add (total_size xs) (pkg_size x)"
  by (simp add: total_size_def)

lemma search_inv_log_call [simp]: "search_inv T (log_call i cs st) = search_inv T st"
  by (simp add: search_inv_def log_call_def)

lemma best_size_log_call [simp]: "best_size (log_call i cs st) = best_size st"
  by (simp add: log_call_def)

lemma best_load_log_call [simp]: "best_load (log_call i cs st) = best_load st"
  by (simp add: log_call_def)

lemma best_size_record_best [simp]: "best_size (record_best cl cs st) = cs"
  by (simp add: record_best_def)

lemma best_load_record_best [simp]: "best_load (record_best cl cs st) = cl"
  by (simp add: record_best_def)

lemma search_inv_record_best [simp]:
  "search_inv T (record_best cl cs st) \<longleftrightarrow> total_size cl = cs \<and> cs \<le> T"
  by (simp add: search_inv_def)

declare backtrack.simps [simp del] for_range.simps [simp del]

lemma backtrack_inv:
  "search_inv T st \<Longrightarrow> cs = total_size cl \<Longrightarrow> cs \<le> T \<Longrightarrow>
     search_inv T (backtrack sp T i cl cs st) \<and>
     best_size st \<le> best_size (backtrack sp T i cl cs st) \<and>
     cs \<le> best_size (backtrack sp T i cl cs st)"
  and for_range_inv:
  "search_inv T st \<Longrightarrow> cs = total_size cl \<Longrightarrow>
     search_inv T (for_range sp T i cl cs st) \<and>
     best_size st \<le> best_size (for_range sp T i cl cs st)"
proof (induction sp T i cl cs st and sp T i cl cs st rule: backtrack_for_range.induct)
  case (1 sp T i cl cs st)
  show ?case
  proof (cases "cs = T")
    case True
    with "1.prems" show ?thesis
      by (simp add: backtrack.simps search_inv_def)
  next
    case False
    let ?st = "if cs > best_size st then record_best cl cs (log_call i cs st)
               else log_call i cs st"
    have inv: "search_inv T ?st" and mono: "best_size st \<le> best_size ?st"
      and here: "cs \<le> best_size ?st"
      using "1.prems" by simp_all
    from "1.IH" [OF False inv "1.prems"(2)] mono here False show ?thesis
      by (simp add: backtrack.simps [of sp T i])
  qed
next
  case (2 sp T i cl cs st)
  show ?case
  proof (cases "i < length sp")
    case False
    with "2.prems" show ?thesis by (simp add: for_range.simps)
  next
    case True
    let ?st = "if float_add cs (pkg_size (sp ! i)) \<le> T
               then backtrack sp T (i + 1) (cl @ [sp ! i]) (float_add cs (pkg_size (sp ! i))) st
               else st"
    have a: "search_inv T ?st \<and> best_size st \<le> best_size ?st"
    proof (cases "float_add cs (pkg_size (sp ! i)) \<le> T")
      case fits: True
      have snoc: "float_add cs (pkg_size (sp ! i)) = total_size (cl @ [sp ! i])"
        using "2.prems"(2) by (simp add: total_size_snoc)
      from "2.IH"(1) [OF True fits "2.prems"(1) snoc fits] fits show ?thesis
        by simp
    next
      case False
      with "2.prems" show ?thesis by simp
    qed
    have unfold: "for_range sp T i cl cs st = for_range sp T (i + 1) cl cs ?st"
      using True by (subst for_range.simps) simp
    from a have inv: "search_inv T ?st" and mono: "best_size st \<le> best_size ?st"
      by blast+
    from "2.IH"(2) [OF True inv "2.prems"(2)] mono show ?thesis
      unfolding unfold by linarith
  qed
qed


lemma subseq_mset_sub: "subseq ys xs \<Longrightarrow> mset ys \<subseteq># mset xs"
proof (induction rule: list_emb.induct)
  case (list_emb_Nil ys)
  then show ?case by simp
next
  case (list_emb_Cons xs ys y)
  have "mset ys \<subseteq># add_mset y (mset ys)" by simp
  with list_emb_Cons.IH show ?case by (auto intro: subset_mset.order_trans)
next
  case (list_emb_Cons2 x y xs ys)
  then show ?case by simp
qed

lemma backtrack_choice:
  "best_load (backtrack sp T i cl cs st) = best_load st \<or>
     (\<exists>ys. subseq ys (drop i sp) \<and> best_load (backtrack sp T i cl cs st) = cl @ ys)"
  and for_range_choice:
  "best_load (for_range sp T i cl cs st) = best_load st \<or>
     (\<exists>ys. subseq ys (drop i sp) \<and> best_load (for_range sp T i cl cs st) = cl @ ys)"
proof (induction sp T i cl cs st and sp T i cl cs st rule: backtrack_for_range.induct)
  case (1 sp T i cl cs st)
  show ?case
  proof (cases "cs = T")
    case True
    then have "best_load (backtrack sp T i cl cs st) = cl @ []"
      by (simp add: backtrack.simps)
    then show ?thesis by (metis list_emb_Nil)
  next
    case False
    let ?st = "if cs > best_size st then record_best cl cs (log_call i cs st)
               else log_call i cs st"
    have unfold: "backtrack sp T i cl cs st = for_range sp T i cl cs ?st"
      using False by (subst backtrack.simps) simp
    have "best_load ?st = best_load st \<or> best_load ?st = cl @ []" by simp
    with "1.IH" [OF False] show ?thesis
      unfolding unfold by (metis list_emb_Nil)
  qed
next
  case (2 sp T i cl cs st)
  show ?case
  proof (cases "i < length sp")
    case False
    then have "for_range sp T i cl cs st = st" by (subst for_range.simps) simp
    then show ?thesis by simp
  next
    case True
    let ?x = "sp ! i"
    let ?fits = "float_add cs (pkg_size ?x) \<le> T"
    let ?st = "if ?fits then backtrack sp T (i + 1) (cl @ [?x]) (float_add cs (pkg_size ?x)) st else st"
    have unfold: "for_range sp T i cl cs st = for_range sp T (i + 1) cl cs ?st"
      using True by (subst for_range.simps) simp
    have dr: "drop i sp = ?x # drop (i + 1) sp"
      using True by (simp add: Cons_nth_drop_Suc)
    have inner: "best_load ?st = best_load st \<or>
        (\<exists>ys. subseq ys (drop i sp) \<and> best_load ?st = cl @ ys)"
    proof (cases ?fits)
      case False
      then show ?thesis by simp
    next
      case fits: True
      from "2.IH"(1) [OF True fits] fits
      have "best_load ?st = best_load st \<or>
        (\<exists>ys. subseq ys (drop (i + 1) sp) \<and> best_load ?st = (cl @ [?x]) @ ys)"
        by simp
      then show ?thesis
      proof
        assume "best_load ?st = best_load st" then show ?thesis ..
      next
        assume "\<exists>ys. subseq ys (drop (i + 1) sp) \<and> best_load ?st = (cl @ [?x]) @ ys"
        then obtain ys where "subseq ys (drop (i + 1) sp)" and "best_load ?st = cl @ (?x # ys)"
          by auto
        then have "subseq (?x # ys) (drop i sp) \<and> best_load ?st = cl @ (?x # ys)"
          unfolding dr by simp
        then show ?thesis by blast
      qed
    qed
    from "2.IH"(2) [OF True]
    have "best_load (for_range sp T (i + 1) cl cs ?st) = best_load ?st \<or>
       (\<exists>ys. subseq ys (drop i sp) \<and> best_load (for_range sp T (i + 1) cl cs ?st) = cl @ ys)"
      unfolding dr by (metis list_emb_Cons)
    with inner show ?thesis
      unfolding unfold by metis
  qed
qed


lemma search_inv_initial: "0 \<le> T \<Longrightarrow> search_inv T initial_search"
  by (simp add: search_inv_def initial_search_def total_size_def)

lemma mset_sorted_desc [simp]: "mset (sorted_desc ps) = mset ps"
  by (simp add: sorted_desc_def)

lemma set_sorted_desc [simp]: "set (sorted_desc ps) = set ps"
  by (simp add: sorted_desc_def)

lemma find_optimal_shipment_subseq:
  "subseq (find_optimal_shipment packages T) (sorted_desc packages)"
proof -
  from backtrack_choice [of "sorted_desc packages" T 0 "[]" 0 initial_search]
  show ?thesis
    by (auto simp: find_optimal_shipment_def run_search_def initial_search_def)
qed

text \<open>
  Claim C1. For candidates with positive sizes and a positive ceiling the result of
  \<open>find_optimal_shipment\<close> should be a sub-collection within the ceiling of the largest
  total. The code misses it for sizes 1.4, 2.6, 3.8 and ceiling 7.8: it returns the packages
  of sizes 3.8 and 2.6, of total 6.4, while all three candidates together are within the
  ceiling, added up as floats in their input order and added up exactly.
\<close>

theorem find_optimal_shipment_misses_optimum:
  "find_optimal_shipment
     [mk_package ''A'' (py_float (7 / 5)) ''40004'',
      mk_package ''B'' (py_float (13 / 5)) ''40004'',
      mk_package ''C'' (py_float (19 / 5)) ''40004''] (py_float (39 / 5))
     = [mk_package ''C'' (py_float (19 / 5)) ''40004'',
        mk_package ''B'' (py_float (13 / 5)) ''40004''] \<and>
   total_size
     [mk_package ''C'' (py_float (19 / 5)) ''40004'',
      mk_package ''B'' (py_float (13 / 5)) ''40004''] = py_float (32 / 5) \<and>
   total_size
     [mk_package ''A'' (py_float (7 / 5)) ''40004'',
      mk_package ''B'' (py_float (13 / 5)) ''40004'',
      mk_package ''C'' (py_float (19 / 5)) ''40004''] = py_float (39 / 5) \<and>
   py_float (7 / 5) + py_float (13 / 5) + py_float (19 / 5) \<le> py_float (39 / 5) \<and>
   py_float (32 / 5) < py_float (39 / 5) \<and>
   py_float (19 / 5) + py_float (13 / 5) < py_float (7 / 5) + py_float (13 / 5) + py_float (19 / 5)"
proof -
  have vals:
    "py_float (7 / 5) = 3152519739159347 / 2 ^ 51"
    "py_float (13 / 5) = 5854679515581645 / 2 ^ 51"
    "py_float (19 / 5) = 4278419646001971 / 2 ^ 50"
    "py_float (39 / 5) = 8782019273372467 / 2 ^ 50"
    "py_float (32 / 5) = 3602879701896397 / 2 ^ 49"
    by (simp_all add: float_eval)
  have found: "find_optimal_shipment
     [mk_package ''A'' (3152519739159347 / 2 ^ 51) ''40004'',
      mk_package ''B'' (5854679515581645 / 2 ^ 51) ''40004'',
      mk_package ''C'' (4278419646001971 / 2 ^ 50) ''40004''] (8782019273372467 / 2 ^ 50)
     = [mk_package ''C'' (4278419646001971 / 2 ^ 50) ''40004'',
        mk_package ''B'' (5854679515581645 / 2 ^ 51) ''40004'']"
    by (simp add: find_optimal_shipment_def run_search_def sorted_desc_def initial_search_def
          backtrack.simps for_range.simps mk_package_def log_call_def record_best_def
          float_eval)
  have sums: "total_size
     [mk_package ''C'' (4278419646001971 / 2 ^ 50) ''40004'',
      mk_package ''B'' (5854679515581645 / 2 ^ 51) ''40004''] = 3602879701896397 / 2 ^ 49"
    "total_size
     [mk_package ''A'' (3152519739159347 / 2 ^ 51) ''40004'',
      mk_package ''B'' (5854679515581645 / 2 ^ 51) ''40004'',
      mk_package ''C'' (4278419646001971 / 2 ^ 50) ''40004''] = 8782019273372467 / 2 ^ 50"
    by (simp_all add: total_size_def mk_package_def float_eval)
  show ?thesis
    unfolding vals found sums by simp
qed

section \<open>The best-fit selector\<close>

declare binary_search.simps [simp del]

lemma resolve_index_in_range:
  "0 \<le> i \<Longrightarrow> i < int n \<Longrightarrow> resolve_index n i = Some (nat i)"
  by (simp add: resolve_index_def)



lemma binary_search_returns:
  "0 \<le> low \<Longrightarrow> high < int (length bins) \<Longrightarrow> (\<forall>k. best = Some k \<longrightarrow> k < length bins) \<Longrightarrow>
     \<exists>r. binary_search bins sz low high best = Inr r \<and> (\<forall>k. r = Some k \<longrightarrow> k < length bins)"
proof (induction bins sz low high best rule: binary_search.induct)
  case (1 bins sz low high best)
  show ?case
  proof (cases "low \<le> high")
    case False
    then have "binary_search bins sz low high best = Inr best"
      by (subst binary_search.simps) simp
    with "1.prems"(3) show ?thesis by simp
  next
    case True
    let ?mid = "(low + high) div 2"
    have mid: "low \<le> ?mid" "?mid \<le> high" using True by linarith+
    with "1.prems"(1,2) have range: "0 \<le> ?mid" "?mid < int (length bins)" by linarith+
    then have ri: "resolve_index (length bins) ?mid = Some (nat ?mid)"
      by (rule resolve_index_in_range)
    have klen: "nat ?mid < length bins" using range by linarith
    show ?thesis
    proof (cases "sz \<le> capacity (bins ! nat ?mid)")
      case fits: True
      have unfold: "binary_search bins sz low high best
                  = binary_search bins sz low (?mid - 1) (Some (nat ?mid))"
        using True ri fits by (subst binary_search.simps) simp
      from "1.IH"(1) [OF True ri fits "1.prems"(1)] range klen
      show ?thesis unfolding unfold by simp
    next
      case nofit: False
      have unfold: "binary_search bins sz low high best
                  = binary_search bins sz (?mid + 1) high best"
        using True ri nofit by (subst binary_search.simps) simp
      from "1.IH"(2) [OF True ri nofit _ "1.prems"(2,3)] range
      show ?thesis unfolding unfold by simp
    qed
  qed
qed

lemma find_best_fit_bin_state: "snd (find_best_fit_bin self sz) = self"
  by (simp add: find_best_fit_bin_def Let_def split: sum.splits option.splits)

lemma find_best_fit_bin_cases:
  "fst (find_best_fit_bin self sz) = Inr None \<or>
   (\<exists>k. fst (find_best_fit_bin self sz) = Inr (Some k) \<and> k < length (bin_inventory self) \<and>
        sz \<le> get_remaining_capacity (bin_inventory self ! k))"
proof -
  let ?bins = "bin_inventory self"
  have "\<forall>k. (None :: nat option) = Some k \<longrightarrow> k < length ?bins" by simp
  from binary_search_returns [OF _ _ this, of 0 "int (length ?bins) - 1" sz]
  obtain r where r: "binary_search ?bins sz 0 (int (length ?bins) - 1) None = Inr r"
    and len: "\<forall>k. r = Some k \<longrightarrow> k < length ?bins"
    by auto
  show ?thesis
  proof (cases r)
    case None
    with r show ?thesis by (simp add: find_best_fit_bin_def)
  next
    case (Some k)
    with r len show ?thesis by (simp add: find_best_fit_bin_def)
  qed
qed

lemma find_best_fit_bin_SomeD:
  assumes "fst (find_best_fit_bin self sz) = Inr (Some k)"
  shows "k < length (bin_inventory self)"
    and "sz \<le> get_remaining_capacity (bin_inventory self ! k)"
  using assms find_best_fit_bin_cases [of self sz] by auto




section \<open>Ingestion and rollback\<close>

lemma process_next_package_returns_none:
  "fst (process_next_package db self) = Inr PyNone"
proof (cases "conveyor_queue self")
  case Nil
  then show ?thesis by (simp add: process_next_package_def)
next
  case (Cons p rest)
  let ?s = "self\<lparr>conveyor_queue := rest\<rparr>"
  from find_best_fit_bin_cases [of ?s "pkg_size p"]
  show ?thesis
  proof
    assume "fst (find_best_fit_bin ?s (pkg_size p)) = Inr None"
    with Cons show ?thesis
      by (cases "find_best_fit_bin ?s (pkg_size p)") (simp add: process_next_package_def)
  next
    assume "\<exists>k. fst (find_best_fit_bin ?s (pkg_size p)) = Inr (Some k) \<and>
       k < length (bin_inventory ?s) \<and> pkg_size p \<le> get_remaining_capacity (bin_inventory ?s ! k)"
    then obtain k where "fst (find_best_fit_bin ?s (pkg_size p)) = Inr (Some k)" by blast
    with Cons show ?thesis
      by (cases "find_best_fit_bin ?s (pkg_size p)") (simp add: process_next_package_def Let_def)
  qed
qed

lemma seed_load [simp]:
  "load_and_sort_bins (Some seed_bins) =
     [\<lparr>capacity = 5, occupancy = 0, bin_id = 101, location_code = ''A01S01''\<rparr>,
      \<lparr>capacity = 10, occupancy = 0, bin_id = 102, location_code = ''A01S02''\<rparr>,
      \<lparr>capacity = 15, occupancy = 0, bin_id = 201, location_code = ''A05S10''\<rparr>,
      \<lparr>capacity = 20, occupancy = 0, bin_id = 202, location_code = ''A05S11''\<rparr>,
      \<lparr>capacity = 50, occupancy = 0, bin_id = 301, location_code = ''B10S05''\<rparr>,
      \<lparr>capacity = 100, occupancy = 0, bin_id = 302, location_code = ''B10S06''\<rparr>]"
  by (simp add: load_and_sort_bins_def seed_bins_def)

lemma fit_4:
  "find_best_fit_bin \<lparr>bin_inventory = load_and_sort_bins (Some seed_bins),
                       conveyor_queue = q, loading_stack = []\<rparr> 4
   = (Inr (Some 0), \<lparr>bin_inventory = load_and_sort_bins (Some seed_bins),
                       conveyor_queue = q, loading_stack = []\<rparr>)"
  by (simp add: find_best_fit_bin_def binary_search.simps resolve_index_def
        get_remaining_capacity_def Let_def float_eval)

lemma pkg_size_mk_package: "pkg_size (mk_package tid sz dest) = sz"
  by (simp add: mk_package_def)

lemma fit_tenth:
  "find_best_fit_bin \<lparr>bin_inventory = load_and_sort_bins (Some seed_bins),
                       conveyor_queue = q, loading_stack = []\<rparr> (py_float (1 / 10))
   = (Inr (Some 0), \<lparr>bin_inventory = load_and_sort_bins (Some seed_bins),
                       conveyor_queue = q, loading_stack = []\<rparr>)"
  by (simp add: find_best_fit_bin_def binary_search.simps resolve_index_def
        get_remaining_capacity_def Let_def float_eval)

lemma fit_fifth:
  "find_best_fit_bin
     \<lparr>bin_inventory = (load_and_sort_bins (Some seed_bins))
        [0 := \<lparr>capacity = 5, occupancy = py_float (1 / 10), bin_id = 101,
               location_code = ''A01S01''\<rparr>],
      conveyor_queue = q, loading_stack = []\<rparr> (py_float (1 / 5))
   = (Inr (Some 0),
      \<lparr>bin_inventory = (load_and_sort_bins (Some seed_bins))
        [0 := \<lparr>capacity = 5, occupancy = py_float (1 / 10), bin_id = 101,
               location_code = ''A01S01''\<rparr>],
       conveyor_queue = q, loading_stack = []\<rparr>)"
  by (simp add: find_best_fit_bin_def binary_search.simps resolve_index_def
        get_remaining_capacity_def Let_def float_eval)

lemma after_tenth:
  "snd (process_next_package (\<lambda>p b. True)
          (ingest_package (mk_package ''C'' 2 ''10001'')
            (ingest_package (mk_package ''B'' (py_float (1 / 5)) ''10001'')
              (ingest_package (mk_package ''A'' (py_float (1 / 10)) ''10001'')
                (init_logimaster (Some seed_bins))))))
   = \<lparr>bin_inventory = (load_and_sort_bins (Some seed_bins))
          [0 := \<lparr>capacity = 5, occupancy = py_float (1 / 10), bin_id = 101,
                 location_code = ''A01S01''\<rparr>],
       conveyor_queue = [mk_package ''B'' (py_float (1 / 5)) ''10001'',
                         mk_package ''C'' 2 ''10001''],
       loading_stack = []\<rparr>"
proof -
  have occ: "float_add 0 (py_float (1 / 10)) = py_float (1 / 10)"
    and room: "py_float (1 / 10) \<le> float_sub 5 0"
    by (simp_all add: float_eval)
  show ?thesis
    unfolding process_next_package_def ingest_package_def init_logimaster_def
    by (simp add: pkg_size_mk_package fit_tenth Let_def occupy_space_def
          get_remaining_capacity_def occ room del: seed_load)
       (simp add: occ room)
qed

lemma after_rollback:
  "snd (process_next_package (\<lambda>p b. False)
     \<lparr>bin_inventory = (load_and_sort_bins (Some seed_bins))
          [0 := \<lparr>capacity = 5, occupancy = py_float (1 / 10), bin_id = 101,
                 location_code = ''A01S01''\<rparr>],
       conveyor_queue = [mk_package ''B'' (py_float (1 / 5)) ''10001'',
                         mk_package ''C'' 2 ''10001''],
       loading_stack = []\<rparr>)
   = \<lparr>bin_inventory = (load_and_sort_bins (Some seed_bins))
          [0 := \<lparr>capacity = 5, occupancy = 1801439850948199 / 2 ^ 54, bin_id = 101,
                 location_code = ''A01S01''\<rparr>],
       conveyor_queue = [mk_package ''B'' (py_float (1 / 5)) ''10001'',
                         mk_package ''C'' 2 ''10001''],
       loading_stack = []\<rparr>"
proof -
  have room: "py_float (1 / 5) \<le> float_sub 5 (py_float (1 / 10))"
    and undo: "max 0 (float_sub (float_add (py_float (1 / 10)) (py_float (1 / 5)))
                         (py_float (1 / 5))) = 1801439850948199 / 2 ^ 54"
    by (simp_all add: float_eval)
  show ?thesis
    unfolding process_next_package_def
    by (simp add: pkg_size_mk_package fit_fifth Let_def occupy_space_def free_space_def
          get_remaining_capacity_def room undo del: seed_load)
       (simp add: room undo)
qed

text \<open>
  Claim C3. When the persistence step fails after a package was popped, matched to a bin
  and added to the bin's occupancy, the package should be back at the front of the queue
  and the bin's occupancy should be what it was before the attempt. The package is put
  back, but the occupancy is not restored: with packages of sizes 0.1, 0.2 and 2 ingested
  in that order, the first stored in the bin of capacity 5 and the second failing on
  persistence, the queue is the second and third package and the bin's occupancy is
  0.10000000000000003, above the 0.1 it was before the attempt.
\<close>

theorem process_next_package_rollback_drift:
  "conveyor_queue (snd (process_next_package (\<lambda>p b. True)
          (ingest_package (mk_package ''C'' 2 ''10001'')
            (ingest_package (mk_package ''B'' (py_float (1 / 5)) ''10001'')
              (ingest_package (mk_package ''A'' (py_float (1 / 10)) ''10001'')
                (init_logimaster (Some seed_bins)))))))
     = [mk_package ''B'' (py_float (1 / 5)) ''10001'', mk_package ''C'' 2 ''10001''] \<and>
   map occupancy (bin_inventory (snd (process_next_package (\<lambda>p b. True)
          (ingest_package (mk_package ''C'' 2 ''10001'')
            (ingest_package (mk_package ''B'' (py_float (1 / 5)) ''10001'')
              (ingest_package (mk_package ''A'' (py_float (1 / 10)) ''10001'')
                (init_logimaster (Some seed_bins))))))))
     = [py_float (1 / 10), 0, 0, 0, 0, 0] \<and>
   conveyor_queue (snd (process_next_package (\<lambda>p b. False)
      (snd (process_next_package (\<lambda>p b. True)
          (ingest_package (mk_package ''C'' 2 ''10001'')
            (ingest_package (mk_package ''B'' (py_float (1 / 5)) ''10001'')
              (ingest_package (mk_package ''A'' (py_float (1 / 10)) ''10001'')
                (init_logimaster (Some seed_bins)))))))))
     = [mk_package ''B'' (py_float (1 / 5)) ''10001'', mk_package ''C'' 2 ''10001''] \<and>
   map occupancy (bin_inventory (snd (process_next_package (\<lambda>p b. False)
      (snd (process_next_package (\<lambda>p b. True)
          (ingest_package (mk_package ''C'' 2 ''10001'')
            (ingest_package (mk_package ''B'' (py_float (1 / 5)) ''10001'')
              (ingest_package (mk_package ''A'' (py_float (1 / 10)) ''10001'')
                (init_logimaster (Some seed_bins))))))))))
     = [1801439850948199 / 2 ^ 54, 0, 0, 0, 0, 0] \<and>
   py_float (1 / 10) < 1801439850948199 / 2 ^ 54"
  unfolding after_tenth after_rollback
  by (simp add: float_eval)

section \<open>Occupancy and capacity\<close>

text \<open>
  Claim C7. For a bin with \<open>0 \<le> occupancy \<le> capacity\<close> and an amount that is not negative,
  the occupancy should stay within \<open>0 \<le> occupancy \<le> capacity\<close> after \<open>occupy_space\<close> and
  after \<open>free_space\<close>. A bin of capacity 0.3 and occupancy 0.03 accepts the amount 0.27: the
  remaining capacity \<open>0.3 - 0.03\<close> rounds to 0.27, the guard passes, and the occupancy
  \<open>0.03 + 0.27\<close> rounds to 0.30000000000000004, above the capacity.
\<close>

theorem occupy_space_exceeds_capacity:
  "bin_ok \<lparr>capacity = py_float (3 / 10), occupancy = py_float (3 / 100),
           bin_id = 1, location_code = ''X''\<rparr> \<and>
   0 \<le> py_float (27 / 100) \<and>
   get_remaining_capacity \<lparr>capacity = py_float (3 / 10), occupancy = py_float (3 / 100),
           bin_id = 1, location_code = ''X''\<rparr> = py_float (27 / 100) \<and>
   occupy_space \<lparr>capacity = py_float (3 / 10), occupancy = py_float (3 / 100),
           bin_id = 1, location_code = ''X''\<rparr> (py_float (27 / 100))
     = (True, \<lparr>capacity = py_float (3 / 10), occupancy = 5404319552844596 / 2 ^ 54,
               bin_id = 1, location_code = ''X''\<rparr>) \<and>
   py_float (3 / 10) < 5404319552844596 / 2 ^ 54 \<and>
   \<not> bin_ok (snd (occupy_space \<lparr>capacity = py_float (3 / 10), occupancy = py_float (3 / 100),
           bin_id = 1, location_code = ''X''\<rparr> (py_float (27 / 100))))"
  by (simp add: bin_ok_def occupy_space_def get_remaining_capacity_def float_eval)

section \<open>Processing an empty queue\<close>

text \<open>
  Claim C8, as stated, fails: what the call returns on an empty queue is what it returns
  after finding no bin for a package and after assigning one, so the result does not tell
  the empty queue apart.
\<close>

theorem process_next_package_result_not_distinct:
  "fst (process_next_package (\<lambda>p b. True) (init_logimaster (Some seed_bins)))
     = fst (process_next_package (\<lambda>p b. True)
              (ingest_package (mk_package ''Z'' 400 ''10001'')
                 (init_logimaster (Some seed_bins)))) \<and>
   fst (process_next_package (\<lambda>p b. True) (init_logimaster (Some seed_bins)))
     = fst (process_next_package (\<lambda>p b. True)
              (ingest_package (mk_package ''A'' 4 ''10001'')
                 (init_logimaster (Some seed_bins)))) \<and>
   conveyor_queue (init_logimaster (Some seed_bins)) = []"
  by (simp add: process_next_package_returns_none) (simp add: init_logimaster_def)

text \<open>
  Claim C8, amended. On an empty queue \<open>process_next_package\<close> is a no-op that raises no
  error: queue, catalog and load ledger are unchanged. It returns \<open>None\<close>, which is also
  what it returns on every other path.
\<close>

theorem process_next_package_empty_queue:
  "(conveyor_queue self = [] \<longrightarrow>
      process_next_package update_db_assignment self = (Inr PyNone, self)) \<and>
   fst (process_next_package update_db_assignment other) = Inr PyNone"
  by (simp add: process_next_package_returns_none) (simp add: process_next_package_def)

theorem process_next_package_empty_queue_witness:
  "process_next_package (\<lambda>p b. True) (init_logimaster (Some seed_bins))
     = (Inr PyNone, init_logimaster (Some seed_bins))"
proof -
  have "conveyor_queue (init_logimaster (Some seed_bins)) = []"
    by (simp add: init_logimaster_def)
  with process_next_package_empty_queue
         [of "init_logimaster (Some seed_bins)" "\<lambda>p b. True" "init_logimaster (Some seed_bins)"]
  show ?thesis by blast
qed

section \<open>The selector only reads\<close>

text \<open>
  Claim C9. \<open>find_best_fit_bin\<close> leaves the controller as it found it: inventory, queue and
  stack, every bin's capacity and occupancy. The inventory changes in
  \<open>process_next_package\<close> only: not at all when no bin is found, and by \<open>occupy_space\<close>, which
  succeeds, on the bin the selector returned, when the assignment is persisted.
\<close>

theorem find_best_fit_bin_query:
  "snd (find_best_fit_bin self sz) = self \<and>
   (conveyor_queue self = p # rest \<and>
    fst (find_best_fit_bin (self\<lparr>conveyor_queue := rest\<rparr>) (pkg_size p)) = Inr None \<longrightarrow>
      bin_inventory (snd (process_next_package update_db_assignment self)) = bin_inventory self) \<and>
   (conveyor_queue self = p # rest \<and>
    fst (find_best_fit_bin (self\<lparr>conveyor_queue := rest\<rparr>) (pkg_size p)) = Inr (Some k) \<and>
    update_db_assignment p (snd (occupy_space (bin_inventory self ! k) (pkg_size p))) \<longrightarrow>
      bin_inventory (snd (process_next_package update_db_assignment self))
        = (bin_inventory self)[k := snd (occupy_space (bin_inventory self ! k) (pkg_size p))] \<and>
      fst (occupy_space (bin_inventory self ! k) (pkg_size p)))"
proof (intro conjI impI)
  show "snd (find_best_fit_bin self sz) = self" by (rule find_best_fit_bin_state)
next
  let ?s = "self\<lparr>conveyor_queue := rest\<rparr>"
  assume a: "conveyor_queue self = p # rest \<and> fst (find_best_fit_bin ?s (pkg_size p)) = Inr None"
  have "snd (find_best_fit_bin ?s (pkg_size p)) = ?s" by (rule find_best_fit_bin_state)
  with a have "find_best_fit_bin ?s (pkg_size p) = (Inr None, ?s)" by (metis prod.collapse)
  with a show "bin_inventory (snd (process_next_package update_db_assignment self))
                 = bin_inventory self"
    by (simp add: process_next_package_def)
next
  let ?s = "self\<lparr>conveyor_queue := rest\<rparr>"
  let ?b = "snd (occupy_space (bin_inventory self ! k) (pkg_size p))"
  assume a: "conveyor_queue self = p # rest \<and>
             fst (find_best_fit_bin ?s (pkg_size p)) = Inr (Some k) \<and> update_db_assignment p ?b"
  then have found: "fst (find_best_fit_bin ?s (pkg_size p)) = Inr (Some k)" by blast
  from find_best_fit_bin_SomeD [OF found]
  have k: "k < length (bin_inventory self)"
    and room: "pkg_size p \<le> get_remaining_capacity (bin_inventory self ! k)" by simp_all
  have "snd (find_best_fit_bin ?s (pkg_size p)) = ?s" by (rule find_best_fit_bin_state)
  with found have "find_best_fit_bin ?s (pkg_size p) = (Inr (Some k), ?s)"
    by (metis prod.collapse)
  with a k show "bin_inventory (snd (process_next_package update_db_assignment self))
                 = (bin_inventory self)[k := ?b]"
    by (simp add: process_next_package_def Let_def)
  from room show "fst (occupy_space (bin_inventory self ! k) (pkg_size p))"
    by (simp add: occupy_space_def)
qed

theorem find_best_fit_bin_query_witness:
  "map occupancy (bin_inventory (snd (process_next_package (\<lambda>p b. True)
      \<lparr>bin_inventory = load_and_sort_bins (Some seed_bins),
        conveyor_queue = [mk_package ''A'' 4 ''10001''], loading_stack = []\<rparr>)))
     = [4, 0, 0, 0, 0, 0] \<and>
   map occupancy (bin_inventory (snd (find_best_fit_bin
      \<lparr>bin_inventory = load_and_sort_bins (Some seed_bins),
        conveyor_queue = [], loading_stack = []\<rparr> 4)))
     = [0, 0, 0, 0, 0, 0]"
proof -
  let ?A = "mk_package ''A'' 4 ''10001''"
  let ?s = "\<lparr>bin_inventory = load_and_sort_bins (Some seed_bins),
             conveyor_queue = [?A], loading_stack = []\<rparr>"
  let ?e = "\<lparr>bin_inventory = load_and_sort_bins (Some seed_bins),
             conveyor_queue = [], loading_stack = []\<rparr>"
  have sz: "pkg_size ?A = 4" by (simp add: mk_package_def)
  have h: "conveyor_queue ?s = ?A # [] \<and>
           fst (find_best_fit_bin (?s\<lparr>conveyor_queue := []\<rparr>) (pkg_size ?A)) = Inr (Some 0) \<and>
           (\<lambda>p b. True) ?A (snd (occupy_space (bin_inventory ?s ! 0) (pkg_size ?A)))"
    by (simp add: sz fit_4 del: seed_load)
  from find_best_fit_bin_query [of ?s 4 ?A "[]" "\<lambda>p b. True" 0] h
  have "bin_inventory (snd (process_next_package (\<lambda>p b. True) ?s))
          = (bin_inventory ?s)[0 := snd (occupy_space (bin_inventory ?s ! 0) (pkg_size ?A))]"
    by blast
  moreover from find_best_fit_bin_query [of ?e 4]
  have "snd (find_best_fit_bin ?e 4) = ?e" by blast
  ultimately show ?thesis
    by (simp add: sz occupy_space_def get_remaining_capacity_def float_eval)
qed

section \<open>The catalog keeps its order\<close>

lemma update_same_field:
  assumes "f y = f (xs ! k)"
  shows "map f (xs[k := y]) = map f xs"
proof (cases "k < length xs")
  case True
  with assms show ?thesis by (simp add: map_update list_update_same_conv)
next
  case False
  then have "xs[k := y] = xs" by (simp add: not_less list_update_beyond)
  then show ?thesis by simp
qed

lemma capacity_occupy [simp]: "capacity (snd (occupy_space b a)) = capacity b"
  by (simp add: occupy_space_def)

lemma capacity_free [simp]: "capacity (free_space b a) = capacity b"
  by (simp add: free_space_def)

lemma bin_id_occupy [simp]: "bin_id (snd (occupy_space b a)) = bin_id b"
  by (simp add: occupy_space_def)

lemma bin_id_free [simp]: "bin_id (free_space b a) = bin_id b"
  by (simp add: free_space_def)

lemma apply_call_keys: "map bin_key (apply_call c bins) = map bin_key bins"
  by (cases c) (simp_all add: update_same_field bin_key_def)

lemma apply_calls_keys: "map bin_key (apply_calls calls bins) = map bin_key bins"
  unfolding apply_calls_def
  by (induction calls arbitrary: bins) (simp_all add: apply_call_keys)

lemma capacity_from_key: "map capacity bins = map fst (map bin_key bins)"
  by (simp add: bin_key_def comp_def)

lemma bin_id_from_key: "map bin_id bins = map snd (map bin_key bins)"
  by (simp add: bin_key_def comp_def)

lemma ties_from_key:
  "map bin_id (filter (\<lambda>b. capacity b = c) bins)
     = map snd (filter (\<lambda>p. fst p = c) (map bin_key bins))"
  by (induction bins) (simp_all add: bin_key_def)

lemma sorted_load: "sorted (map capacity (load_and_sort_bins q))"
  by (cases q) (simp_all add: load_and_sort_bins_def)

lemma load_ties:
  "map bin_id (filter (\<lambda>b. capacity b = c) (load_and_sort_bins (Some rows)))
     = map row_bin_id (filter (\<lambda>r. max_capacity r = c) rows)"
  by (simp add: load_and_sort_bins_def sort_key_stable filter_map comp_def)

text \<open>
  Claim C6. After any sequence of \<open>occupy_space\<close> and \<open>free_space\<close> calls on the bins of a
  loaded catalog, the catalog holds the same bins in the same order with the same
  capacities: it is still ascending by capacity, sorting it again would change nothing,
  and bins of equal capacity are still in the order of the rows they were loaded from.
\<close>

theorem catalog_order_invariant:
  "map capacity (apply_calls calls (load_and_sort_bins q)) = map capacity (load_and_sort_bins q) \<and>
   map bin_id (apply_calls calls (load_and_sort_bins q)) = map bin_id (load_and_sort_bins q) \<and>
   sorted (map capacity (apply_calls calls (load_and_sort_bins q))) \<and>
   sort_key capacity (apply_calls calls (load_and_sort_bins q))
     = apply_calls calls (load_and_sort_bins q) \<and>
   map bin_id (filter (\<lambda>b. capacity b = c) (apply_calls calls (load_and_sort_bins (Some rows))))
     = map row_bin_id (filter (\<lambda>r. max_capacity r = c) rows)"
proof -
  let ?bins = "load_and_sort_bins q"
  have cap: "map capacity (apply_calls calls ?bins) = map capacity ?bins"
    by (simp only: capacity_from_key apply_calls_keys)
  have ids: "map bin_id (apply_calls calls ?bins) = map bin_id ?bins"
    by (simp only: bin_id_from_key apply_calls_keys)
  have srt: "sorted (map capacity (apply_calls calls ?bins))"
    by (simp only: cap sorted_load)
  then have fixed: "sort_key capacity (apply_calls calls ?bins) = apply_calls calls ?bins"
    by (rule sort_key_id_if_sorted)
  have ties: "map bin_id (filter (\<lambda>b. capacity b = c)
                    (apply_calls calls (load_and_sort_bins (Some rows))))
     = map row_bin_id (filter (\<lambda>r. max_capacity r = c) rows)"
    by (simp only: ties_from_key apply_calls_keys) (simp only: load_ties flip: ties_from_key)
  from cap ids srt fixed ties show ?thesis by blast
qed

section \<open>Shipment preparation and the load ledger\<close>

lemma single_package_load:
  "find_optimal_shipment [mk_package ''P1'' 5 ''40004''] 500 = [mk_package ''P1'' 5 ''40004'']"
  by (simp add: find_optimal_shipment_def run_search_def sorted_desc_def initial_search_def
        backtrack.simps for_range.simps mk_package_def log_call_def record_best_def
        float_eval)

text \<open>
  Claim C4. In \<open>prepare_shipment\<close> the tracking id goes onto the loading stack before the
  commit. With one candidate that fits the truck and a commit that fails, the session is
  rolled back and the stack keeps the entry of the failed batch.
\<close>

theorem prepare_shipment_keeps_ledger_on_failure:
  "prepare_shipment
     \<lparr>truck_row = Some 500, candidate_packages = [mk_package ''P1'' 5 ''40004''],
       package_row_found = (\<lambda>t. True), commit_succeeds = False\<rparr>
     (init_logimaster (Some seed_bins))
   = (RolledBack, (init_logimaster (Some seed_bins))\<lparr>loading_stack := [''P1'']\<rparr>)"
  by (simp add: prepare_shipment_def single_package_load)
     (simp add: mk_package_def init_logimaster_def)

section \<open>What an exact match ends\<close>

text \<open>
  Claim C5, as stated, fails. For sizes 3, 2, 1 and ceiling 6 the fourth call reaches the
  running sum 6, and four more calls follow it.
\<close>

theorem exact_match_search_continues:
  "call_log (run_search [mk_package ''A'' 3 ''z'', mk_package ''B'' 2 ''z'',
                         mk_package ''C'' 1 ''z''] 6)
     = [(0, 0), (1, 3), (2, 5), (3, 6), (3, 4), (2, 2), (3, 3), (3, 1)]"
  by (simp add: run_search_def sorted_desc_def initial_search_def
        backtrack.simps for_range.simps mk_package_def log_call_def record_best_def
        float_eval)

text \<open>
  Claim C5, amended. A call of \<open>backtrack\<close> whose running sum equals the ceiling records the
  current selection as best and returns at once, with no recursive call of its own. Only
  that call ends: the loop of the calling \<open>backtrack\<close> goes on with its next candidate. The
  recorded best size stays at the ceiling for the rest of the search.
\<close>

theorem exact_match_ends_one_call:
  "backtrack sp T i cl T st = record_best cl T (log_call i T st) \<and>
   (i < length sp \<and> float_add cs (pkg_size (sp ! i)) = T \<longrightarrow>
      for_range sp T i cl cs st
        = for_range sp T (i + 1) cl cs
            (record_best (cl @ [sp ! i]) T (log_call (i + 1) T st))) \<and>
   (search_inv T st \<and> best_size st = T \<and> cs = total_size cl \<longrightarrow>
      best_size (for_range sp T i cl cs st) = T)"
proof (intro conjI impI)
  show exact: "backtrack sp T i cl T st = record_best cl T (log_call i T st)" for i cl st
    by (subst backtrack.simps) simp
  {
    assume a: "i < length sp \<and> float_add cs (pkg_size (sp ! i)) = T"
    then have "for_range sp T i cl cs st
        = for_range sp T (i + 1) cl cs
            (backtrack sp T (i + 1) (cl @ [sp ! i]) (float_add cs (pkg_size (sp ! i))) st)"
      by (subst for_range.simps) simp
    with a show "for_range sp T i cl cs st
        = for_range sp T (i + 1) cl cs
            (record_best (cl @ [sp ! i]) T (log_call (i + 1) T st))"
      by (simp add: exact)
  }
  {
    assume a: "search_inv T st \<and> best_size st = T \<and> cs = total_size cl"
    then have inv: "search_inv T st" and cs: "cs = total_size cl" by blast+
    from for_range_inv [OF inv cs, of sp i] a
    show "best_size (for_range sp T i cl cs st) = T"
      by (simp add: search_inv_def)
  }
qed

theorem exact_match_ends_one_call_witness:
  "for_range [mk_package ''A'' 3 ''z'', mk_package ''B'' 2 ''z'', mk_package ''C'' 1 ''z''] 3 0
       [] 0 initial_search
     = for_range [mk_package ''A'' 3 ''z'', mk_package ''B'' 2 ''z'', mk_package ''C'' 1 ''z''] 3 1
         [] 0 (record_best [mk_package ''A'' 3 ''z''] 3 (log_call 1 3 initial_search)) \<and>
   best_size (for_range [mk_package ''A'' 3 ''z'', mk_package ''B'' 2 ''z'',
                         mk_package ''C'' 1 ''z''] 3 1 [] 0
                (record_best [mk_package ''A'' 3 ''z''] 3 (log_call 1 3 initial_search))) = 3"
proof -
  let ?sp = "[mk_package ''A'' 3 ''z'', mk_package ''B'' 2 ''z'', mk_package ''C'' 1 ''z'']"
  let ?st = "record_best [mk_package ''A'' 3 ''z''] 3 (log_call 1 3 initial_search)"
  have h1: "0 < length ?sp \<and> float_add 0 (pkg_size (?sp ! 0)) = 3"
    by (simp add: mk_package_def float_eval)
  have h2: "search_inv 3 ?st \<and> best_size ?st = 3 \<and> (0::real) = total_size []"
    by (simp add: total_size_def mk_package_def float_eval)
  from exact_match_ends_one_call [of ?sp 3 0 "[]" initial_search 0] h1
  have a: "for_range ?sp 3 0 [] 0 initial_search
             = for_range ?sp 3 (0 + 1) [] 0
                 (record_best ([] @ [?sp ! 0]) 3 (log_call (0 + 1) 3 initial_search))"
    by blast
  from exact_match_ends_one_call [of ?sp 3 1 "[]" ?st 0] h2
  have b: "best_size (for_range ?sp 3 1 [] 0 ?st) = 3" by blast
  from a b show ?thesis by simp
qed

section \<open>The optimizer leaves its input alone\<close>

declare backtrack_store.simps [simp del] for_range_store.simps [simp del]

lemma store_frame_refl: "store_ok st cl \<Longrightarrow> store_frame st cl st"
  by (simp add: store_ok_def store_frame_def)

lemma store_frame_trans:
  "store_frame st cl st1 \<Longrightarrow> store_frame st1 cl st2 \<Longrightarrow> store_frame st cl st2"
  by (auto simp: store_frame_def)

lemma store_frame_ok: "store_ok st cl \<Longrightarrow> store_frame st cl st' \<Longrightarrow> store_ok st' cl"
  by (auto simp: store_ok_def store_frame_def)

lemma store_frame_cell:
  "store_ok st cl \<Longrightarrow> store_frame st cl st' \<Longrightarrow> heap st' ! cl = heap st ! cl"
  by (simp add: store_ok_def store_frame_def)

lemma record_best_store_frame:
  "store_ok st cl \<Longrightarrow> store_frame st cl (record_best_store cl cs st)"
  by (simp add: store_ok_def store_frame_def record_best_store_def new_list_def nth_append)

lemma record_best_store_rel:
  "store_rel (record_best_store cl cs st) (record_best (heap st ! cl) cs ps)"
  by (simp add: store_rel_def record_best_store_def new_list_def record_best_def)

lemma store_rel_log_call [simp]: "store_rel st (log_call i cs ps) = store_rel st ps"
  by (simp add: store_rel_def log_call_def)

lemma store_rel_record_log:
  "store_rel (record_best_store cl cs st) (record_best (heap st ! cl) cs (log_call i cs ps))"
  by (simp add: store_rel_def record_best_store_def new_list_def record_best_def)

lemma backtrack_store_refines:
  "store_ok st cl \<Longrightarrow>
     (\<forall>ps. store_rel st ps \<longrightarrow>
        (\<exists>st'. backtrack_store sp T i cl cs st = Inr st' \<and> store_frame st cl st' \<and>
               store_rel st' (backtrack sp T i (heap st ! cl) cs ps)))"
  and for_range_store_refines:
  "store_ok st cl \<Longrightarrow>
     (\<forall>ps. store_rel st ps \<longrightarrow>
        (\<exists>st'. for_range_store sp T i cl cs st = Inr st' \<and> store_frame st cl st' \<and>
               store_rel st' (for_range sp T i (heap st ! cl) cs ps)))"
proof (induction sp T i cl cs st and sp T i cl cs st
       rule: backtrack_store_for_range_store.induct)
  case (1 sp T i cl cs st)
  show ?case
  proof (intro allI impI)
    fix ps assume rel: "store_rel st ps"
    show "\<exists>st'. backtrack_store sp T i cl cs st = Inr st' \<and> store_frame st cl st' \<and>
               store_rel st' (backtrack sp T i (heap st ! cl) cs ps)"
    proof (cases "cs = T")
      case True
      have "backtrack_store sp T i cl cs st = Inr (record_best_store cl cs st)"
        using True by (subst backtrack_store.simps) simp
      moreover have "backtrack sp T i (heap st ! cl) cs ps
                       = record_best (heap st ! cl) cs (log_call i cs ps)"
        using True by (subst backtrack.simps) simp
      ultimately show ?thesis
        using record_best_store_frame [OF "1.prems"] store_rel_record_log by simp
    next
      case False
      let ?st0 = "if best_size_s st < cs then record_best_store cl cs st else st"
      let ?ps0 = "if best_size ps < cs then record_best (heap st ! cl) cs (log_call i cs ps)
                  else log_call i cs ps"
      have same: "best_size_s st = best_size ps" using rel by (simp add: store_rel_def)
      have fr0: "store_frame st cl ?st0"
        using record_best_store_frame [OF "1.prems"] store_frame_refl [OF "1.prems"] by simp
      have ok0: "store_ok ?st0 cl" using "1.prems" fr0 by (rule store_frame_ok)
      have cell0: "heap ?st0 ! cl = heap st ! cl" using "1.prems" fr0 by (rule store_frame_cell)
      have rel0: "store_rel ?st0 ?ps0"
        using rel same store_rel_record_log by simp
      from "1.IH" [OF False ok0] rel0 obtain st' where
        run: "for_range_store sp T i cl cs ?st0 = Inr st'" and fr: "store_frame ?st0 cl st'"
        and rel': "store_rel st' (for_range sp T i (heap ?st0 ! cl) cs ?ps0)"
        by blast
      have u1: "backtrack_store sp T i cl cs st = for_range_store sp T i cl cs ?st0"
        using False by (subst backtrack_store.simps) simp
      have u2: "backtrack sp T i (heap st ! cl) cs ps
                  = for_range sp T i (heap st ! cl) cs ?ps0"
        using False by (subst backtrack.simps) simp
      from run fr rel' store_frame_trans [OF fr0 fr] show ?thesis
        unfolding u1 u2 cell0 by blast
    qed
  qed
next
  case (2 sp T i cl cs st)
  show ?case
  proof (intro allI impI)
    fix ps assume rel: "store_rel st ps"
    show "\<exists>st'. for_range_store sp T i cl cs st = Inr st' \<and> store_frame st cl st' \<and>
               store_rel st' (for_range sp T i (heap st ! cl) cs ps)"
    proof (cases "i < length sp")
      case False
      have "for_range_store sp T i cl cs st = Inr st"
        using False by (subst for_range_store.simps) simp
      moreover have "for_range sp T i (heap st ! cl) cs ps = ps"
        using False by (subst for_range.simps) simp
      ultimately show ?thesis using rel store_frame_refl [OF "2.prems"] by simp
    next
      case True
      let ?x = "sp ! i"
      show ?thesis
      proof (cases "float_add cs (pkg_size ?x) \<le> T")
        case False
        have u1: "for_range_store sp T i cl cs st = for_range_store sp T (i + 1) cl cs st"
          using True False by (subst for_range_store.simps) simp
        have u2: "for_range sp T i (heap st ! cl) cs ps
                    = for_range sp T (i + 1) (heap st ! cl) cs ps"
          using True False by (subst for_range.simps) simp
        from "2.IH"(3) [OF True False "2.prems"] rel show ?thesis
          unfolding u1 u2 by blast
      next
        case fits: True
        let ?sta = "st\<lparr>heap := list_append cl ?x (heap st)\<rparr>"
        from "2.prems" have cl: "cl < length (heap st)" and ref: "best_load_ref st \<noteq> cl"
          by (simp_all add: store_ok_def)
        have oka: "store_ok ?sta cl"
          using "2.prems" by (simp add: store_ok_def list_append_def)
        have cella: "heap ?sta ! cl = heap st ! cl @ [?x]"
          using cl by (simp add: list_append_def)
        have rela: "store_rel ?sta ps"
          using rel ref by (simp add: store_rel_def list_append_def)
        from "2.IH"(1) [OF True fits oka] rela obtain st1 where
          run1: "backtrack_store sp T (i + 1) cl (float_add cs (pkg_size ?x)) ?sta = Inr st1"
          and fr1: "store_frame ?sta cl st1"
          and rel1: "store_rel st1
                       (backtrack sp T (i + 1) (heap st ! cl @ [?x]) (float_add cs (pkg_size ?x)) ps)"
          unfolding cella by blast
        let ?ps1 = "backtrack sp T (i + 1) (heap st ! cl @ [?x]) (float_add cs (pkg_size ?x)) ps"
        have ok1: "store_ok st1 cl" using oka fr1 by (rule store_frame_ok)
        have cell1: "heap st1 ! cl = heap st ! cl @ [?x]"
          using store_frame_cell [OF oka fr1] cella by simp
        let ?h = "(heap st1)[cl := heap st ! cl]"
        have pop: "list_pop cl (heap st1) = Inr ?h"
          by (simp add: list_pop_def cell1)
        let ?st2 = "st1\<lparr>heap := ?h\<rparr>"
        have ok2: "store_ok ?st2 cl" using ok1 by (simp add: store_ok_def)
        have cell2: "heap ?st2 ! cl = heap st ! cl"
          using ok1 by (simp add: store_ok_def)
        have rel2: "store_rel ?st2 ?ps1"
          using rel1 ok1 by (simp add: store_rel_def store_ok_def)
        from "2.IH"(2) [OF True fits run1 pop ok2] rel2 obtain st' where
          run2: "for_range_store sp T (i + 1) cl cs ?st2 = Inr st'"
          and fr2: "store_frame ?st2 cl st'"
          and rel': "store_rel st' (for_range sp T (i + 1) (heap st ! cl) cs ?ps1)"
          unfolding cell2 by blast
        have fr02: "store_frame st cl ?st2"
          unfolding store_frame_def
        proof (intro conjI allI impI)
          from fr1 show "length (heap st) \<le> length (heap ?st2)"
            by (simp add: store_frame_def list_append_def)
          from ok2 show "best_load_ref ?st2 < length (heap ?st2)" "best_load_ref ?st2 \<noteq> cl"
            by (simp_all add: store_ok_def)
          from fr1 show "best_load_ref ?st2 = best_load_ref st \<or>
                         length (heap st) \<le> best_load_ref ?st2"
            by (simp add: store_frame_def list_append_def)
          fix a assume a: "a < length (heap st)"
          show "heap ?st2 ! a = heap st ! a"
          proof (cases "a = cl")
            case True
            with cell2 show ?thesis by simp
          next
            case False
            from fr1 a have "heap st1 ! a = heap ?sta ! a"
              by (simp add: store_frame_def list_append_def)
            with False show ?thesis by (simp add: list_append_def)
          qed
        qed
        have u1: "for_range_store sp T i cl cs st = for_range_store sp T (i + 1) cl cs ?st2"
          using True fits run1 pop by (subst for_range_store.simps) simp
        have u2: "for_range sp T i (heap st ! cl) cs ps
                    = for_range sp T (i + 1) (heap st ! cl) cs ?ps1"
          using True fits by (subst for_range.simps) simp
        from run2 rel' store_frame_trans [OF fr02 fr2] show ?thesis
          unfolding u1 u2 by blast
      qed
    qed
  qed
qed


text \<open>
  Claim C10. \<open>find_optimal_shipment\<close> does not change its input: after the call the input
  list, like every list that existed before, holds the same packages in the same order,
  with the same fields. What it returns is a list created during the call; its elements
  are a subsequence of the sorted copy of the input, so each input package occurs in it at
  most once.
\<close>

theorem find_optimal_shipment_store_frame:
  assumes "packages < length h"
  shows "\<exists>r h'. find_optimal_shipment_store packages T h = Inr (r, h') \<and>
           (\<forall>a<length h. h' ! a = h ! a) \<and>
           h' ! packages = h ! packages \<and>
           length h \<le> r \<and> r < length h' \<and>
           h' ! r = find_optimal_shipment (h ! packages) T \<and>
           subseq (h' ! r) (sorted_desc (h ! packages)) \<and>
           mset (h' ! r) \<subseteq># mset (h ! packages)"
proof -
  let ?sp = "sorted_desc (h ! packages)"
  let ?h3 = "h @ [?sp] @ [[]] @ [[]]"
  let ?bref = "length h + 1"
  let ?cref = "length h + 2"
  let ?st0 = "\<lparr>heap = ?h3, best_load_ref = ?bref, best_size_s = 0\<rparr>"
  have ok: "store_ok ?st0 ?cref" by (simp add: store_ok_def)
  have cells: "?h3 ! length h = ?sp" "?h3 ! ?bref = []" "?h3 ! ?cref = []"
    by (simp_all add: nth_append)
  have rel: "store_rel ?st0 initial_search"
    using cells by (simp add: store_rel_def initial_search_def)
  from backtrack_store_refines [OF ok, of ?sp T 0 0] rel cells obtain st' where
    run: "backtrack_store ?sp T 0 ?cref 0 ?st0 = Inr st'"
    and fr: "store_frame ?st0 ?cref st'"
    and rel': "store_rel st' (backtrack ?sp T 0 [] 0 initial_search)"
    by auto
  have res: "find_optimal_shipment_store packages T h = Inr (best_load_ref st', heap st')"
    using run cells by (simp add: find_optimal_shipment_store_def new_list_def)
  have old: "heap st' ! a = h ! a" if "a < length h" for a
  proof -
    from fr that have "heap st' ! a = ?h3 ! a" by (simp add: store_frame_def)
    with that show ?thesis by (simp add: nth_append)
  qed
  have fresh: "length h \<le> best_load_ref st'" and inside: "best_load_ref st' < length (heap st')"
    using fr by (auto simp: store_frame_def)
  have content: "heap st' ! best_load_ref st' = find_optimal_shipment (h ! packages) T"
    using rel' by (simp add: store_rel_def find_optimal_shipment_def run_search_def)
  have sub: "subseq (find_optimal_shipment (h ! packages) T) ?sp"
    by (rule find_optimal_shipment_subseq)
  from subseq_mset_sub [OF sub]
  have ms: "mset (find_optimal_shipment (h ! packages) T) \<subseteq># mset (h ! packages)" by simp
  from res old old [OF assms] fresh inside content sub ms show ?thesis by auto
qed

theorem find_optimal_shipment_store_frame_witness:
  "\<exists>r h'. find_optimal_shipment_store 0 500
             [[mk_package ''A'' 5 ''40004'', mk_package ''B'' 25 ''40004'']] = Inr (r, h') \<and>
          h' ! 0 = [mk_package ''A'' 5 ''40004'', mk_package ''B'' 25 ''40004''] \<and>
          1 \<le> r \<and> r < length h' \<and>
          h' ! r = find_optimal_shipment
                     [mk_package ''A'' 5 ''40004'', mk_package ''B'' 25 ''40004''] 500"
proof -
  let ?h = "[[mk_package ''A'' 5 ''40004'', mk_package ''B'' 25 ''40004'']]"
  have "(0::nat) < length ?h" by simp
  from find_optimal_shipment_store_frame [OF this, of 500]
  show ?thesis by auto
qed

end
